theory Spec2Isabelle
  imports Complex_Main "HOL-Library.Monad_Syntax"
begin

section \<open>Railgun simulation: data\<close>

text \<open>
  The notebook keeps everything in global variables. The ones that no loop assigns
  are collected in \<open>params\<close>, the ones the loops assign in \<open>state\<close>. Python floats are
  read as real numbers (no rounding, no overflow) and \<open>np.log\<close> as the natural
  logarithm. That reading needs \<open>w > 0\<close>, \<open>D + w/2 > 0\<close> and \<open>m \<noteq> 0\<close>: elsewhere numpy
  produces \<open>nan\<close> or \<open>inf\<close>, which the reals do not have. \<open>valid_params\<close>, the
  invariants the spec gives for the constants (with \<open>dt > 0\<close>), implies all three, and
  the theorems about the loops assume it.
\<close>

record params =
  D :: real
  w :: real
  L :: real
  m :: real
  dt :: real
  Muover2pi :: real
  v_goal :: real

record state =
  barpos :: real
  v :: real
  t :: real
  I :: real
  I_start :: real

definition valid_params :: "params \<Rightarrow> bool" where
  "valid_params p \<longleftrightarrow>
     0 < D p \<and> 0 < w p \<and> 0 < L p \<and> 0 < m p \<and> 0 < dt p \<and> 0 < Muover2pi p"

definition logterm :: "params \<Rightarrow> real" where
  "logterm p = ln (D p + w p / 2) - ln (w p / 2)"

definition Fnet_bare :: "params \<Rightarrow> real \<Rightarrow> real" where
  "Fnet_bare p i = 2 * Muover2pi p * i\<^sup>2 * logterm p"

definition Fnet_aug :: "params \<Rightarrow> real \<Rightarrow> real" where
  "Fnet_aug p i = 2 * Muover2pi p * i\<^sup>2 * logterm p - 9.8 * m p"

subsection \<open>The bare loop\<close>

text \<open>
  \<^verbatim>\<open>
  while barpos < L:
      Fnet = 2*Muover2pi*(I**2)*(np.log(D+w/2)-np.log(w/2))
      v = v + Fnet/m*dt
      barpos = barpos + v*dt
  \<close>
\<close>

definition bare_step :: "params \<Rightarrow> state \<Rightarrow> state" where
  "bare_step p s =
     (let Fnet = Fnet_bare p (I s);
          v' = v s + Fnet / m p * dt p;
          barpos' = barpos s + v' * dt p
      in s\<lparr>v := v', barpos := barpos'\<rparr>)"

partial_function (option) bare_inner :: "params \<Rightarrow> state \<Rightarrow> state option" where
  "bare_inner p s = (if barpos s < L p then bare_inner p (bare_step p s) else Some s)"

subsection \<open>The augmented loop\<close>

text \<open>
  \<^verbatim>\<open>
  while barpos < L:
      I = I - 2*Muover2pi*I*(np.log(D+w/2)-np.log(w/2))*v
      Fnet = 2*Muover2pi*(I**2)*(np.log(D+w/2)-np.log(w/2))-9.8*m
      v = v + Fnet/m*dt
      barpos = barpos + v*dt
      t = t+dt
  \<close>
\<close>

definition aug_step :: "params \<Rightarrow> state \<Rightarrow> state" where
  "aug_step p s =
     (let I' = I s - 2 * Muover2pi p * I s * logterm p * v s;
          Fnet = Fnet_aug p I';
          v' = v s + Fnet / m p * dt p;
          barpos' = barpos s + v' * dt p;
          t' = t s + dt p
      in s\<lparr>I := I', v := v', barpos := barpos', t := t'\<rparr>)"

partial_function (option) aug_inner :: "params \<Rightarrow> state \<Rightarrow> state option" where
  "aug_inner p s = (if barpos s < L p then aug_inner p (aug_step p s) else Some s)"

subsection \<open>The two searches\<close>

text \<open>
  One pass through the body of the outer \<open>while v <= v_goal\<close> loop: reset, inner loop,
  raise the current by one percent. The state a pass starts its inner loop from is
  \<open>fresh s\<close>.
\<close>

definition fresh :: "state \<Rightarrow> state" where
  "fresh s = s\<lparr>barpos := 0, v := 0\<rparr>"

definition bare_trial :: "params \<Rightarrow> state \<Rightarrow> state option" where
  "bare_trial p s = do {
     s' \<leftarrow> bare_inner p (fresh s);
     Some (s'\<lparr>I := I s' * 1.01\<rparr>) }"

partial_function (option) bare_search :: "params \<Rightarrow> state \<Rightarrow> state option" where
  "bare_search p s =
     (if v s \<le> v_goal p then do { s' \<leftarrow> bare_trial p s; bare_search p s' } else Some s)"

definition aug_trial :: "params \<Rightarrow> state \<Rightarrow> state option" where
  "aug_trial p s = do {
     s' \<leftarrow> aug_inner p (fresh s);
     let s'' = s'\<lparr>I_start := I_start s' * 1.01\<rparr>;
     Some (s''\<lparr>I := I_start s''\<rparr>) }"

partial_function (option) aug_search :: "params \<Rightarrow> state \<Rightarrow> state option" where
  "aug_search p s =
     (if v s \<le> v_goal p then do { s' \<leftarrow> aug_trial p s; aug_search p s' } else Some s)"

text \<open>The two numbers the final \<open>print\<close> shows: \<open>v\<close> and \<open>I/1.01\<close>.\<close>

definition printed :: "state \<Rightarrow> real \<times> real" where
  "printed s = (v s, I s / 1.01)"

text \<open>The state after \<open>n\<close> passes of the outer loop, when the loop makes that many.\<close>

fun bare_trials :: "params \<Rightarrow> nat \<Rightarrow> state \<Rightarrow> state option" where
  "bare_trials p 0 s = Some s"
| "bare_trials p (Suc n) s =
     (if v s \<le> v_goal p then do { s' \<leftarrow> bare_trial p s; bare_trials p n s' } else None)"

fun aug_trials :: "params \<Rightarrow> nat \<Rightarrow> state \<Rightarrow> state option" where
  "aug_trials p 0 s = Some s"
| "aug_trials p (Suc n) s =
     (if v s \<le> v_goal p then do { s' \<leftarrow> aug_trial p s; aug_trials p n s' } else None)"

subsection \<open>Derived quantities and sample inputs\<close>

text \<open>The velocity the bare loop adds in one pass, \<open>Fnet/m*dt\<close>, at current \<open>i\<close>.\<close>

definition bare_dv :: "params \<Rightarrow> real \<Rightarrow> real" where
  "bare_dv p i = Fnet_bare p i / m p * dt p"

text \<open>
  The velocity the augmented loop adds in a pass that starts at velocity zero with
  current \<open>i\<close> (the current update leaves \<open>i\<close> alone there).
\<close>

definition aug_dv :: "params \<Rightarrow> real \<Rightarrow> real" where
  "aug_dv p i = Fnet_aug p i / m p * dt p"

text \<open>The values the notebook itself assigns (cells 10, 13, 18, 24).\<close>

definition notebook_params :: params where
  "notebook_params =
     \<lparr>D = 0.15, w = 0.1, L = 10, m = 1, dt = 0.00001, Muover2pi = 0.0000002, v_goal = 2733\<rparr>"

text \<open>A coarse setting whose runs take one or two passes: rail length \<open>l\<close>, goal \<open>g\<close>.\<close>

definition coarse_params :: "real \<Rightarrow> real \<Rightarrow> params" where
  "coarse_params l g = \<lparr>D = 1, w = 2, L = l, m = 1, dt = 1, Muover2pi = 1, v_goal = g\<rparr>"

text \<open>
  A second coarse setting, with a weaker field, where the augmented run takes two passes
  and the bare run one.
\<close>

definition weak_field_params :: params where
  "weak_field_params =
     \<lparr>D = 1, w = 2, L = 20, m = 1, dt = 1, Muover2pi = 1/1000, v_goal = 126/5\<rparr>"

text \<open>
  A bar at rest at the start of the rail at time zero, with current and start current
  \<open>i\<close> (cells 13 and 24; the searches reset position and velocity themselves).
\<close>

definition rest :: "real \<Rightarrow> state" where
  "rest i = \<lparr>barpos = 0, v = 0, t = 0, I = i, I_start = i\<rparr>"


text \<open>
  The rate of change of the current in the spec's words (section 4.1):
  \<open>induced_current_rate(I, D, w, k, v) = -2*k*I*(ln(D+w/2) - ln(w/2))*v\<close>. The notebook
  has no function of this name; this definition is what the loop is compared with.
\<close>

definition spec_induced_current_rate :: "real \<Rightarrow> real \<Rightarrow> real \<Rightarrow> real \<Rightarrow> real \<Rightarrow> real" where
  "spec_induced_current_rate i d b k u = - 2 * k * i * (ln (d + b / 2) - ln (b / 2)) * u"

section \<open>Numeric facts\<close>

lemma ln2_upper: "ln (2::real) < 7/10"
proof -
  have "(1 + 7/1000 :: real) \<le> exp (7/1000)" by (rule exp_ge_add_one_self)
  then have "(1 + 7/1000 :: real) ^ 100 \<le> exp (7/1000) ^ 100"
    by (intro power_mono) simp_all
  also have "\<dots> = exp (of_nat 100 * (7/1000))" by (rule exp_of_nat_mult[symmetric])
  also have "\<dots> = exp (7/10)" by simp
  finally have "(1 + 7/1000 :: real) ^ 100 \<le> exp (7/10)" .
  moreover have "(2::real) < (1 + 7/1000) ^ 100" by (simp add: power_divide)
  ultimately have "exp (ln 2) < exp (7/10 :: real)" by simp
  then show ?thesis by (simp only: exp_less_cancel_iff)
qed

lemma ln2_lower: "69/100 < ln (2::real)"
proof -
  have "(1 + (- (69/10000)) :: real) \<le> exp (- (69/10000))" by (rule exp_ge_add_one_self)
  then have "(1 + (- (69/10000)) :: real) ^ 100 \<le> exp (- (69/10000)) ^ 100"
    by (intro power_mono) simp_all
  also have "\<dots> = exp (of_nat 100 * (- (69/10000)))" by (rule exp_of_nat_mult[symmetric])
  also have "\<dots> = exp (- (69/100))" by simp
  finally have "(1 + (- (69/10000)) :: real) ^ 100 \<le> exp (- (69/100))" .
  moreover have "(1/2::real) < (1 + (- (69/10000))) ^ 100" by (simp add: power_divide)
  ultimately have "1/2 < exp (- (69/100) :: real)" by simp
  then have "exp (69/100 :: real) < 2" by (simp add: exp_minus field_simps)
  then have "exp (69/100 :: real) < exp (ln 2)" by simp
  then show ?thesis by (simp only: exp_less_cancel_iff)
qed

lemma logterm_pos: "valid_params p \<Longrightarrow> 0 < logterm p"
  by (simp add: valid_params_def logterm_def)

lemma logterm_coarse: "logterm (coarse_params l g) = ln 2"
  by (simp add: logterm_def coarse_params_def)

lemma logterm_weak: "logterm weak_field_params = ln 2"
  by (simp add: logterm_def weak_field_params_def)

lemma logterm_notebook: "logterm notebook_params = 2 * ln 2"
proof -
  have "logterm notebook_params = ln (1/5) - ln (1/20 :: real)"
    by (simp add: logterm_def notebook_params_def)
  also have "\<dots> = ln ((1/5) / (1/20) :: real)" by (subst ln_div) simp_all
  also have "\<dots> = ln ((2::real)^2)" by simp
  also have "\<dots> = 2 * ln 2" by (subst ln_realpow) simp_all
  finally show ?thesis .
qed

lemma valid_coarse: "0 < l \<Longrightarrow> valid_params (coarse_params l g)"
  by (simp add: valid_params_def coarse_params_def)

lemma valid_notebook: "valid_params notebook_params"
  by (simp add: valid_params_def notebook_params_def)




lemma Fnet_aug_zero: "valid_params p \<Longrightarrow> Fnet_aug p 0 \<le> 0"
  by (simp add: Fnet_aug_def valid_params_def)




section \<open>The bare loop\<close>

lemma bare_step_sel:
  "I (bare_step p s) = I s"
  "t (bare_step p s) = t s"
  "I_start (bare_step p s) = I_start s"
  "v (bare_step p s) = v s + bare_dv p (I s)"
  "barpos (bare_step p s) = barpos s + v (bare_step p s) * dt p"
  by (simp_all add: bare_step_def Let_def bare_dv_def)

lemma bare_funpow_I: "I ((bare_step p ^^ n) s) = I s"
  by (induction n) (simp_all add: bare_step_sel)

lemma bare_funpow_I_start: "I_start ((bare_step p ^^ n) s) = I_start s"
  by (induction n) (simp_all add: bare_step_sel)

lemma bare_funpow_t: "t ((bare_step p ^^ n) s) = t s"
  by (induction n) (simp_all add: bare_step_sel)



text \<open>The loop returns exactly the first iterate that has left the rail.\<close>

lemma bare_inner_funpow:
  "\<not> barpos ((bare_step p ^^ n) s) < L p \<Longrightarrow> \<forall>i<n. barpos ((bare_step p ^^ i) s) < L p
   \<Longrightarrow> bare_inner p s = Some ((bare_step p ^^ n) s)"
proof (induction n arbitrary: s)
  case 0
  then show ?case by (subst bare_inner.simps) simp
next
  case (Suc n)
  from Suc.prems(2) have b0: "barpos s < L p" by (metis funpow_0 zero_less_Suc)
  have "\<not> barpos ((bare_step p ^^ n) (bare_step p s)) < L p"
    using Suc.prems(1) by (simp add: funpow_swap1)
  moreover have "\<forall>i<n. barpos ((bare_step p ^^ i) (bare_step p s)) < L p"
  proof (intro allI impI)
    fix i assume "i < n"
    then have "barpos ((bare_step p ^^ Suc i) s) < L p" using Suc.prems(2) by blast
    then show "barpos ((bare_step p ^^ i) (bare_step p s)) < L p" by (simp add: funpow_swap1)
  qed
  ultimately have "bare_inner p (bare_step p s) = Some ((bare_step p ^^ n) (bare_step p s))"
    by (rule Suc.IH)
  then show ?case using b0 by (subst bare_inner.simps) (simp add: funpow_swap1)
qed

lemma bare_inner_SomeD:
  assumes "bare_inner p s = Some s'"
  shows "\<exists>n. s' = (bare_step p ^^ n) s \<and> \<not> barpos s' < L p
            \<and> (\<forall>i<n. barpos ((bare_step p ^^ i) s) < L p)"
proof (rule bare_inner.raw_induct[where P = "\<lambda>p s s'. \<exists>n. s' = (bare_step p ^^ n) s
          \<and> \<not> barpos s' < L p \<and> (\<forall>i<n. barpos ((bare_step p ^^ i) s) < L p)", OF _ assms])
  fix f p s s'
  assume IH: "\<And>q r y. f q r = Some y \<Longrightarrow>
     \<exists>n. y = (bare_step q ^^ n) r \<and> \<not> barpos y < L q
         \<and> (\<forall>i<n. barpos ((bare_step q ^^ i) r) < L q)"
    and eq: "(if barpos s < L p then f p (bare_step p s) else Some s) = Some s'"
  show "\<exists>n. s' = (bare_step p ^^ n) s \<and> \<not> barpos s' < L p
           \<and> (\<forall>i<n. barpos ((bare_step p ^^ i) s) < L p)"
  proof (cases "barpos s < L p")
    case False
    with eq have "s' = s" by simp
    with False show ?thesis by (intro exI[of _ 0]) simp
  next
    case True
    with eq have "f p (bare_step p s) = Some s'" by simp
    from IH[OF this] obtain n where n: "s' = (bare_step p ^^ n) (bare_step p s)"
      "\<not> barpos s' < L p" "\<forall>i<n. barpos ((bare_step p ^^ i) (bare_step p s)) < L p" by blast
    have "\<forall>i<Suc n. barpos ((bare_step p ^^ i) s) < L p"
    proof (intro allI impI)
      fix i assume "i < Suc n"
      show "barpos ((bare_step p ^^ i) s) < L p"
      proof (cases i)
        case 0 then show ?thesis using True by simp
      next
        case (Suc j)
        then have "j < n" using \<open>i < Suc n\<close> by simp
        then show ?thesis using n(3) Suc by (simp add: funpow_swap1)
      qed
    qed
    with n(1,2) show ?thesis by (intro exI[of _ "Suc n"]) (simp add: funpow_swap1)
  qed
qed


lemma bare_inner_None:
  assumes "\<forall>n. barpos ((bare_step p ^^ n) s) < L p"
  shows "bare_inner p s = None"
proof (cases "bare_inner p s")
  case None
  then show ?thesis .
next
  case (Some s')
  from bare_inner_SomeD[OF this] assms show ?thesis by auto
qed

lemma bare_inner_one_pass:
  assumes "barpos s < L p" and "\<not> barpos (bare_step p s) < L p"
  shows "bare_inner p s = Some (bare_step p s)"
  using assms by (subst bare_inner.simps, subst bare_inner.simps) simp




lemma bare_never_forward:
  assumes "valid_params p" and "v s \<le> 0" and "Fnet_bare p (I s) \<le> 0"
  shows "v ((bare_step p ^^ n) s) \<le> 0 \<and> barpos ((bare_step p ^^ n) s) \<le> barpos s"
proof (induction n)
  case 0
  show ?case using assms(2) by simp
next
  case (Suc n)
  have m: "0 < m p" and d: "0 < dt p" using assms(1) by (simp_all add: valid_params_def)
  have "bare_dv p (I s) \<le> 0"
    using assms(3) m d by (simp add: bare_dv_def mult_le_0_iff divide_le_0_iff)
  then have v': "v ((bare_step p ^^ Suc n) s) \<le> 0"
    using Suc.IH by (simp add: bare_step_sel bare_funpow_I)
  then have "v ((bare_step p ^^ Suc n) s) * dt p \<le> 0" using d by (simp add: mult_le_0_iff)
  then have "barpos ((bare_step p ^^ Suc n) s) \<le> barpos s"
    using Suc.IH by (simp add: bare_step_sel)
  with v' show ?case by blast
qed

section \<open>The augmented loop\<close>

lemma aug_step_sel:
  "I (aug_step p s) = I s - 2 * Muover2pi p * I s * logterm p * v s"
  "v (aug_step p s) = v s + Fnet_aug p (I (aug_step p s)) / m p * dt p"
  "barpos (aug_step p s) = barpos s + v (aug_step p s) * dt p"
  "t (aug_step p s) = t s + dt p"
  "I_start (aug_step p s) = I_start s"
  by (simp_all add: aug_step_def Let_def)

lemma aug_funpow_I_start: "I_start ((aug_step p ^^ n) s) = I_start s"
  by (induction n) (simp_all add: aug_step_sel)

lemma aug_funpow_I_zero: "I s = 0 \<Longrightarrow> I ((aug_step p ^^ n) s) = 0"
  by (induction n) (simp_all add: aug_step_sel)


lemma aug_inner_SomeD:
  assumes "aug_inner p s = Some s'"
  shows "\<exists>n. s' = (aug_step p ^^ n) s \<and> \<not> barpos s' < L p
            \<and> (\<forall>i<n. barpos ((aug_step p ^^ i) s) < L p)"
proof (rule aug_inner.raw_induct[where P = "\<lambda>p s s'. \<exists>n. s' = (aug_step p ^^ n) s
          \<and> \<not> barpos s' < L p \<and> (\<forall>i<n. barpos ((aug_step p ^^ i) s) < L p)", OF _ assms])
  fix f p s s'
  assume IH: "\<And>q r y. f q r = Some y \<Longrightarrow>
     \<exists>n. y = (aug_step q ^^ n) r \<and> \<not> barpos y < L q
         \<and> (\<forall>i<n. barpos ((aug_step q ^^ i) r) < L q)"
    and eq: "(if barpos s < L p then f p (aug_step p s) else Some s) = Some s'"
  show "\<exists>n. s' = (aug_step p ^^ n) s \<and> \<not> barpos s' < L p
           \<and> (\<forall>i<n. barpos ((aug_step p ^^ i) s) < L p)"
  proof (cases "barpos s < L p")
    case False
    with eq have "s' = s" by simp
    with False show ?thesis by (intro exI[of _ 0]) simp
  next
    case True
    with eq have "f p (aug_step p s) = Some s'" by simp
    from IH[OF this] obtain n where n: "s' = (aug_step p ^^ n) (aug_step p s)"
      "\<not> barpos s' < L p" "\<forall>i<n. barpos ((aug_step p ^^ i) (aug_step p s)) < L p" by blast
    have "\<forall>i<Suc n. barpos ((aug_step p ^^ i) s) < L p"
    proof (intro allI impI)
      fix i assume "i < Suc n"
      show "barpos ((aug_step p ^^ i) s) < L p"
      proof (cases i)
        case 0 then show ?thesis using True by simp
      next
        case (Suc j)
        then have "j < n" using \<open>i < Suc n\<close> by simp
        then show ?thesis using n(3) Suc by (simp add: funpow_swap1)
      qed
    qed
    with n(1,2) show ?thesis by (intro exI[of _ "Suc n"]) (simp add: funpow_swap1)
  qed
qed


lemma aug_inner_None:
  assumes "\<forall>n. barpos ((aug_step p ^^ n) s) < L p"
  shows "aug_inner p s = None"
proof (cases "aug_inner p s")
  case None
  then show ?thesis .
next
  case (Some s')
  from aug_inner_SomeD[OF this] assms show ?thesis by auto
qed

lemma aug_inner_one_pass:
  assumes "barpos s < L p" and "\<not> barpos (aug_step p s) < L p"
  shows "aug_inner p s = Some (aug_step p s)"
  using assms by (subst aug_inner.simps, subst aug_inner.simps) simp

lemma aug_inner_two_pass:
  assumes "barpos s < L p" and "barpos (aug_step p s) < L p"
    and "\<not> barpos (aug_step p (aug_step p s)) < L p"
  shows "aug_inner p s = Some (aug_step p (aug_step p s))"
  using assms by (subst aug_inner.simps, subst aug_inner.simps, subst aug_inner.simps) simp

text \<open>While the force of every pass is at most zero, a bar that is not moving forward
  never starts to.\<close>

lemma aug_never_forward:
  assumes "valid_params p" and "v s \<le> 0"
    and "\<forall>n. Fnet_aug p (I ((aug_step p ^^ Suc n) s)) \<le> 0"
  shows "v ((aug_step p ^^ n) s) \<le> 0 \<and> barpos ((aug_step p ^^ n) s) \<le> barpos s"
proof (induction n)
  case 0
  show ?case using assms(2) by simp
next
  case (Suc n)
  have m: "0 < m p" and d: "0 < dt p" using assms(1) by (simp_all add: valid_params_def)
  have "Fnet_aug p (I ((aug_step p ^^ Suc n) s)) \<le> 0" using assms(3) by blast
  then have "Fnet_aug p (I ((aug_step p ^^ Suc n) s)) / m p * dt p \<le> 0"
    using m d by (simp add: mult_le_0_iff divide_le_0_iff)
  then have v': "v ((aug_step p ^^ Suc n) s) \<le> 0"
    using Suc.IH by (simp add: aug_step_sel)
  then have "v ((aug_step p ^^ Suc n) s) * dt p \<le> 0" using d by (simp add: mult_le_0_iff)
  then have "barpos ((aug_step p ^^ Suc n) s) \<le> barpos s"
    using Suc.IH by (simp add: aug_step_sel)
  with v' show ?case by blast
qed

lemma no_current_no_return:
  assumes "valid_params p" and "I s = 0" and "v s \<le> 0" and "barpos s < L p"
  shows "bare_inner p s = None" and "aug_inner p s = None"
proof -
  have "Fnet_bare p (I s) \<le> 0" using assms(2) by (simp add: Fnet_bare_def)
  from bare_never_forward[OF assms(1,3) this] assms(4)
  have "\<forall>n. barpos ((bare_step p ^^ n) s) < L p" by (meson le_less_trans)
  then show "bare_inner p s = None" by (rule bare_inner_None)
  have "\<And>n. I ((aug_step p ^^ Suc n) s) = 0" by (rule aug_funpow_I_zero[OF assms(2)])
  then have "\<forall>n. Fnet_aug p (I ((aug_step p ^^ Suc n) s)) \<le> 0"
    using Fnet_aug_zero[OF assms(1)] by (simp del: funpow.simps)
  from aug_never_forward[OF assms(1,3) this] assms(4)
  have "\<forall>n. barpos ((aug_step p ^^ n) s) < L p" by (meson le_less_trans)
  then show "aug_inner p s = None" by (rule aug_inner_None)
qed



section \<open>Leaving the rail\<close>






section \<open>The outer loops\<close>

lemma bare_search_trials:
  "bare_trials p n s = Some s' \<Longrightarrow> \<not> v s' \<le> v_goal p \<Longrightarrow> bare_search p s = Some s'"
proof (induction n arbitrary: s)
  case 0
  then show ?case by (subst bare_search.simps) simp
next
  case (Suc n)
  from Suc.prems(1) have g: "v s \<le> v_goal p" by (simp split: if_splits)
  with Suc.prems(1) obtain x where x: "bare_trial p s = Some x" "bare_trials p n x = Some s'"
    by (auto simp: bind_eq_Some_conv)
  from Suc.IH[OF x(2) Suc.prems(2)] x(1) g show ?case
    by (subst bare_search.simps) simp
qed

lemma bare_search_SomeD:
  assumes "bare_search p s = Some s'"
  shows "\<exists>n. bare_trials p n s = Some s' \<and> \<not> v s' \<le> v_goal p"
proof (rule bare_search.raw_induct[where P = "\<lambda>p s s'. \<exists>n. bare_trials p n s = Some s'
          \<and> \<not> v s' \<le> v_goal p", OF _ assms])
  fix f p s s'
  assume IH: "\<And>q r y. f q r = Some y \<Longrightarrow> \<exists>n. bare_trials q n r = Some y \<and> \<not> v y \<le> v_goal q"
    and eq: "(if v s \<le> v_goal p then bare_trial p s \<bind> f p else Some s) = Some s'"
  show "\<exists>n. bare_trials p n s = Some s' \<and> \<not> v s' \<le> v_goal p"
  proof (cases "v s \<le> v_goal p")
    case False
    with eq have "s' = s" by simp
    with False show ?thesis by (intro exI[of _ 0]) simp
  next
    case True
    with eq obtain x where x: "bare_trial p s = Some x" "f p x = Some s'"
      by (auto simp: bind_eq_Some_conv)
    from IH[OF x(2)] obtain n where "bare_trials p n x = Some s'" "\<not> v s' \<le> v_goal p" by blast
    with x(1) True show ?thesis by (intro exI[of _ "Suc n"]) simp
  qed
qed

lemma bare_trials_add:
  "bare_trials p (n + k) s = bare_trials p n s \<bind> bare_trials p k"
  by (induction n arbitrary: s) (simp_all cong: Option.bind_cong)


lemma bare_search_through:
  "bare_trials p n s = Some s' \<Longrightarrow> bare_search p s = bare_search p s'"
proof (induction n arbitrary: s)
  case 0
  then show ?case by simp
next
  case (Suc n)
  from Suc.prems have g: "v s \<le> v_goal p" by (simp split: if_splits)
  with Suc.prems obtain x where x: "bare_trial p s = Some x" "bare_trials p n x = Some s'"
    by (auto simp: bind_eq_Some_conv)
  from Suc.IH[OF x(2)] x(1) g show ?case
    by (subst bare_search.simps) simp
qed

lemma bare_trials_one:
  "bare_trials p (Suc 0) s = (if v s \<le> v_goal p then bare_trial p s else None)"
proof -
  have "bare_trials p 0 = Some" by (rule ext) simp
  then show ?thesis by simp
qed

lemma bare_trial_SomeD:
  assumes "bare_trial p s = Some s'"
  shows "\<exists>x. bare_inner p (fresh s) = Some x \<and> s' = x\<lparr>I := I x * 1.01\<rparr> \<and> I x = I s"
proof -
  from assms obtain x where x: "bare_inner p (fresh s) = Some x" "s' = x\<lparr>I := I x * 1.01\<rparr>"
    by (auto simp: bare_trial_def bind_eq_Some_conv)
  from bare_inner_SomeD[OF x(1)] have "I x = I (fresh s)" by (auto simp: bare_funpow_I)
  with x show ?thesis by (simp add: fresh_def)
qed

lemma bare_trial_t:
  assumes "bare_trial p s = Some s'"
  shows "t s' = t s"
proof -
  from assms obtain x where x: "bare_inner p (fresh s) = Some x" "s' = x\<lparr>I := I x * 1.01\<rparr>"
    by (auto simp: bare_trial_def bind_eq_Some_conv)
  from bare_inner_SomeD[OF x(1)] have "t x = t (fresh s)" by (auto simp: bare_funpow_t)
  with x show ?thesis by (simp add: fresh_def)
qed

lemma bare_trials_t: "bare_trials p n s = Some s' \<Longrightarrow> t s' = t s"
proof (induction n arbitrary: s)
  case 0
  then show ?case by simp
next
  case (Suc n)
  then obtain x where x: "bare_trial p s = Some x" "bare_trials p n x = Some s'"
    by (auto simp: bind_eq_Some_conv split: if_splits)
  from bare_trial_t[OF x(1)] Suc.IH[OF x(2)] show ?case by simp
qed

lemma bare_trials_I: "bare_trials p n s = Some s' \<Longrightarrow> I s' = I s * 1.01 ^ n"
proof (induction n arbitrary: s)
  case 0
  then show ?case by simp
next
  case (Suc n)
  then obtain x where x: "bare_trial p s = Some x" "bare_trials p n x = Some s'"
    by (auto simp: bind_eq_Some_conv split: if_splits)
  from bare_trial_SomeD[OF x(1)] have "I x = I s * 1.01" by auto
  with Suc.IH[OF x(2)] show ?case by simp
qed

lemma aug_search_trials:
  "aug_trials p n s = Some s' \<Longrightarrow> \<not> v s' \<le> v_goal p \<Longrightarrow> aug_search p s = Some s'"
proof (induction n arbitrary: s)
  case 0
  then show ?case by (subst aug_search.simps) simp
next
  case (Suc n)
  from Suc.prems(1) have g: "v s \<le> v_goal p" by (simp split: if_splits)
  with Suc.prems(1) obtain x where x: "aug_trial p s = Some x" "aug_trials p n x = Some s'"
    by (auto simp: bind_eq_Some_conv)
  from Suc.IH[OF x(2) Suc.prems(2)] x(1) g show ?case
    by (subst aug_search.simps) simp
qed

lemma aug_search_SomeD:
  assumes "aug_search p s = Some s'"
  shows "\<exists>n. aug_trials p n s = Some s' \<and> \<not> v s' \<le> v_goal p"
proof (rule aug_search.raw_induct[where P = "\<lambda>p s s'. \<exists>n. aug_trials p n s = Some s'
          \<and> \<not> v s' \<le> v_goal p", OF _ assms])
  fix f p s s'
  assume IH: "\<And>q r y. f q r = Some y \<Longrightarrow> \<exists>n. aug_trials q n r = Some y \<and> \<not> v y \<le> v_goal q"
    and eq: "(if v s \<le> v_goal p then aug_trial p s \<bind> f p else Some s) = Some s'"
  show "\<exists>n. aug_trials p n s = Some s' \<and> \<not> v s' \<le> v_goal p"
  proof (cases "v s \<le> v_goal p")
    case False
    with eq have "s' = s" by simp
    with False show ?thesis by (intro exI[of _ 0]) simp
  next
    case True
    with eq obtain x where x: "aug_trial p s = Some x" "f p x = Some s'"
      by (auto simp: bind_eq_Some_conv)
    from IH[OF x(2)] obtain n where "aug_trials p n x = Some s'" "\<not> v s' \<le> v_goal p" by blast
    with x(1) True show ?thesis by (intro exI[of _ "Suc n"]) simp
  qed
qed

lemma aug_trials_add:
  "aug_trials p (n + k) s = aug_trials p n s \<bind> aug_trials p k"
  by (induction n arbitrary: s) (simp_all cong: Option.bind_cong)

lemma aug_trials_prefix:
  assumes "aug_trials p n s = Some s'" and "k \<le> n"
  shows "\<exists>x. aug_trials p k s = Some x \<and> (k < n \<longrightarrow> v x \<le> v_goal p)"
proof -
  from assms(2) obtain j where n: "n = k + j" using le_Suc_ex by blast
  with assms(1) obtain x where x: "aug_trials p k s = Some x" "aug_trials p j x = Some s'"
    by (auto simp: aug_trials_add bind_eq_Some_conv)
  have "k < n \<longrightarrow> v x \<le> v_goal p"
  proof
    assume "k < n"
    then obtain i where "j = Suc i" using n by (cases j) auto
    with x(2) show "v x \<le> v_goal p" by (simp split: if_splits)
  qed
  with x(1) show ?thesis by blast
qed

lemma aug_search_through:
  "aug_trials p n s = Some s' \<Longrightarrow> aug_search p s = aug_search p s'"
proof (induction n arbitrary: s)
  case 0
  then show ?case by simp
next
  case (Suc n)
  from Suc.prems have g: "v s \<le> v_goal p" by (simp split: if_splits)
  with Suc.prems obtain x where x: "aug_trial p s = Some x" "aug_trials p n x = Some s'"
    by (auto simp: bind_eq_Some_conv)
  from Suc.IH[OF x(2)] x(1) g show ?case
    by (subst aug_search.simps) simp
qed

lemma aug_trials_one:
  "aug_trials p (Suc 0) s = (if v s \<le> v_goal p then aug_trial p s else None)"
proof -
  have "aug_trials p 0 = Some" by (rule ext) simp
  then show ?thesis by simp
qed

lemma aug_trial_SomeD:
  assumes "aug_trial p s = Some s'"
  shows "\<exists>x. aug_inner p (fresh s) = Some x
           \<and> s' = x\<lparr>I_start := I_start s * 1.01, I := I_start s * 1.01\<rparr>"
proof -
  from assms obtain x where x: "aug_inner p (fresh s) = Some x"
    "s' = x\<lparr>I_start := I_start x * 1.01, I := I_start x * 1.01\<rparr>"
    by (auto simp: aug_trial_def bind_eq_Some_conv Let_def)
  from aug_inner_SomeD[OF x(1)] have "I_start x = I_start (fresh s)"
    by (auto simp: aug_funpow_I_start)
  with x show ?thesis by (simp add: fresh_def)
qed

lemma aug_trials_I:
  "aug_trials p n s = Some s' \<Longrightarrow> I s = I_start s
   \<Longrightarrow> I_start s' = I_start s * 1.01 ^ n \<and> I s' = I_start s'"
proof (induction n arbitrary: s)
  case 0
  then show ?case by simp
next
  case (Suc n)
  then obtain x where x: "aug_trial p s = Some x" "aug_trials p n x = Some s'"
    by (auto simp: bind_eq_Some_conv split: if_splits)
  from aug_trial_SomeD[OF x(1)] have "I_start x = I_start s * 1.01" "I x = I_start x" by auto
  with Suc.IH[OF x(2)] show ?case by simp
qed

section \<open>Sample runs\<close>

lemma bare_step_coarse:
  "bare_step (coarse_params l g) \<lparr>barpos = x, v = u, t = c, I = i, I_start = j\<rparr> =
     \<lparr>barpos = x + (u + 2 * i\<^sup>2 * ln 2), v = u + 2 * i\<^sup>2 * ln 2, t = c, I = i, I_start = j\<rparr>"
  by (simp add: bare_step_def Fnet_bare_def logterm_coarse Let_def) (simp add: coarse_params_def)

lemma aug_step_coarse:
  "aug_step (coarse_params l g) \<lparr>barpos = x, v = u, t = c, I = i, I_start = j\<rparr> =
     \<lparr>barpos = x + (u + (2 * (i - 2 * i * ln 2 * u)\<^sup>2 * ln 2 - 98/10)),
      v = u + (2 * (i - 2 * i * ln 2 * u)\<^sup>2 * ln 2 - 98/10),
      t = c + 1, I = i - 2 * i * ln 2 * u, I_start = j\<rparr>"
  by (simp add: aug_step_def Fnet_aug_def logterm_coarse Let_def) (simp add: coarse_params_def)

lemma aug_step_notebook_rest:
  "aug_step notebook_params (rest i) =
     \<lparr>barpos = (4 * i\<^sup>2 * ln 2 / 5000000 - 98/10) / 10000000000,
      v = (4 * i\<^sup>2 * ln 2 / 5000000 - 98/10) / 100000,
      t = 1/100000, I = i, I_start = i\<rparr>"
  by (simp add: aug_step_def Fnet_aug_def logterm_notebook Let_def rest_def)
     (simp add: notebook_params_def field_simps)





lemma bare_trial_coarse_one_pass:
  assumes "0 < l" and "l \<le> 2 * i\<^sup>2 * ln 2"
  shows "bare_trial (coarse_params l g) \<lparr>barpos = x, v = u, t = c, I = i, I_start = j\<rparr> =
     Some \<lparr>barpos = 2 * i\<^sup>2 * ln 2, v = 2 * i\<^sup>2 * ln 2, t = c, I = i * 1.01, I_start = j\<rparr>"
proof -
  let ?p = "coarse_params l g"
  let ?s = "fresh \<lparr>barpos = x, v = u, t = c, I = i, I_start = j\<rparr>"
  have st: "bare_step ?p ?s =
      \<lparr>barpos = 2 * i\<^sup>2 * ln 2, v = 2 * i\<^sup>2 * ln 2, t = c, I = i, I_start = j\<rparr>"
    by (simp add: fresh_def bare_step_coarse)
  have "bare_inner ?p ?s = Some (bare_step ?p ?s)"
  proof (rule bare_inner_one_pass)
    show "barpos ?s < L ?p" using assms(1) by (simp add: fresh_def coarse_params_def)
    show "\<not> barpos (bare_step ?p ?s) < L ?p"
      unfolding st using assms(2) by (simp add: coarse_params_def)
  qed
  then show ?thesis by (simp add: bare_trial_def st)
qed

lemma bare_two_trials_coarse:
  "bare_trials (coarse_params 1 (7/5)) 1 (rest 1) =
     Some \<lparr>barpos = 2 * ln 2, v = 2 * ln 2, t = 0, I = 101/100, I_start = 1\<rparr>"
  "bare_trials (coarse_params 1 (7/5)) 2 (rest 1) =
     Some \<lparr>barpos = 2 * (101/100)\<^sup>2 * ln 2, v = 2 * (101/100)\<^sup>2 * ln 2, t = 0,
           I = 101/100 * (101/100), I_start = 1\<rparr>"
proof -
  have g0: "v (rest 1) \<le> v_goal (coarse_params 1 (7/5))"
    by (simp add: rest_def coarse_params_def)
  have t1: "bare_trial (coarse_params 1 (7/5)) (rest 1) =
      Some \<lparr>barpos = 2 * ln 2, v = 2 * ln 2, t = 0, I = 101/100, I_start = 1\<rparr>"
    unfolding rest_def
    using bare_trial_coarse_one_pass[of 1 1 "7/5" 0 0 0 1] ln2_lower by simp
  show one: "bare_trials (coarse_params 1 (7/5)) 1 (rest 1) =
     Some \<lparr>barpos = 2 * ln 2, v = 2 * ln 2, t = 0, I = 101/100, I_start = 1\<rparr>"
    using g0 t1 by simp
  have g1: "v \<lparr>barpos = 2 * ln 2, v = 2 * ln 2, t = 0, I = 101/100, I_start = 1\<rparr>
      \<le> v_goal (coarse_params 1 (7/5))"
    using ln2_upper by (simp add: coarse_params_def)
  have t2: "bare_trial (coarse_params 1 (7/5))
        \<lparr>barpos = 2 * ln 2, v = 2 * ln 2, t = 0, I = 101/100, I_start = 1\<rparr> =
      Some \<lparr>barpos = 2 * (101/100)\<^sup>2 * ln 2, v = 2 * (101/100)\<^sup>2 * ln 2, t = 0,
           I = 101/100 * (101/100), I_start = 1\<rparr>"
    using bare_trial_coarse_one_pass[of 1 "101/100" "7/5" "2 * ln 2" "2 * ln 2" 0 1] ln2_lower
    by (simp add: power2_eq_square)
  have "bare_trials (coarse_params 1 (7/5)) (Suc (Suc 0)) (rest 1) =
     Some \<lparr>barpos = 2 * (101/100)\<^sup>2 * ln 2, v = 2 * (101/100)\<^sup>2 * ln 2, t = 0,
           I = 101/100 * (101/100), I_start = 1\<rparr>"
    using g0 t1 g1 t2 by (simp del: One_nat_def)
  then show "bare_trials (coarse_params 1 (7/5)) 2 (rest 1) =
     Some \<lparr>barpos = 2 * (101/100)\<^sup>2 * ln 2, v = 2 * (101/100)\<^sup>2 * ln 2, t = 0,
           I = 101/100 * (101/100), I_start = 1\<rparr>"
    by (simp add: numeral_2_eq_2)
qed

lemma bare_search_two_trials_coarse:
  "bare_search (coarse_params 1 (7/5)) (rest 1) =
     Some \<lparr>barpos = 2 * (101/100)\<^sup>2 * ln 2, v = 2 * (101/100)\<^sup>2 * ln 2, t = 0,
           I = 101/100 * (101/100), I_start = 1\<rparr>"
proof -
  have "\<not> v \<lparr>barpos = 2 * (101/100)\<^sup>2 * ln 2, v = 2 * (101/100)\<^sup>2 * ln 2, t = 0,
           I = 101/100 * (101/100), I_start = 1\<rparr> \<le> v_goal (coarse_params 1 (7/5))"
    using ln2_lower by (simp add: coarse_params_def power2_eq_square)
  from bare_search_trials[OF bare_two_trials_coarse(2) this] show ?thesis .
qed



lemma aug_trial_coarse_10:
  "aug_trial (coarse_params 1 g) (rest 10) =
     Some \<lparr>barpos = 200 * ln 2 - 98/10, v = 200 * ln 2 - 98/10, t = 1,
           I = 1010/100, I_start = 1010/100\<rparr>"
proof -
  have st: "aug_step (coarse_params 1 g) (fresh (rest 10)) =
      \<lparr>barpos = 200 * ln 2 - 98/10, v = 200 * ln 2 - 98/10, t = 1, I = 10, I_start = 10\<rparr>"
    by (simp add: fresh_def rest_def aug_step_coarse)
  have "aug_inner (coarse_params 1 g) (fresh (rest 10)) =
      Some (aug_step (coarse_params 1 g) (fresh (rest 10)))"
  proof (rule aug_inner_one_pass)
    show "barpos (fresh (rest 10)) < L (coarse_params 1 g)"
      by (simp add: fresh_def coarse_params_def)
    show "\<not> barpos (aug_step (coarse_params 1 g) (fresh (rest 10))) < L (coarse_params 1 g)"
      unfolding st using ln2_lower by (simp add: coarse_params_def)
  qed
  then show ?thesis by (simp add: aug_trial_def st Let_def)
qed

lemma aug_first_trial_coarse:
  "aug_trials (coarse_params 1 1000) 1 (rest 10) =
     Some \<lparr>barpos = 200 * ln 2 - 98/10, v = 200 * ln 2 - 98/10, t = 1,
           I = 1010/100, I_start = 1010/100\<rparr>"
proof -
  have "v (rest 10) \<le> v_goal (coarse_params 1 1000)"
    by (simp add: rest_def coarse_params_def)
  then show ?thesis by (simp add: aug_trial_coarse_10)
qed

lemma aug_search_coarse_10:
  "aug_search (coarse_params 1 1) (rest 10) =
     Some \<lparr>barpos = 200 * ln 2 - 98/10, v = 200 * ln 2 - 98/10, t = 1,
           I = 1010/100, I_start = 1010/100\<rparr>"
proof -
  have "aug_trials (coarse_params 1 1) (Suc 0) (rest 10) =
     Some \<lparr>barpos = 200 * ln 2 - 98/10, v = 200 * ln 2 - 98/10, t = 1,
           I = 1010/100, I_start = 1010/100\<rparr>"
    unfolding aug_trials_one aug_trial_coarse_10 by (simp add: rest_def coarse_params_def)
  moreover have "\<not> v \<lparr>barpos = 200 * ln 2 - 98/10, v = 200 * ln 2 - 98/10, t = 1,
           I = 1010/100, I_start = 1010/100\<rparr> \<le> v_goal (coarse_params 1 1)"
    using ln2_lower by (simp add: coarse_params_def)
  ultimately show ?thesis by (rule aug_search_trials)
qed



lemma bare_step_weak:
  "bare_step weak_field_params \<lparr>barpos = x, v = u, t = c, I = i, I_start = j\<rparr> =
     \<lparr>barpos = x + (u + i\<^sup>2 * ln 2 / 500), v = u + i\<^sup>2 * ln 2 / 500, t = c, I = i, I_start = j\<rparr>"
  by (simp add: bare_step_def Fnet_bare_def logterm_weak Let_def) (simp add: weak_field_params_def)

lemma aug_step_weak:
  "aug_step weak_field_params \<lparr>barpos = x, v = u, t = c, I = i, I_start = j\<rparr> =
     \<lparr>barpos = x + (u + ((i - i * ln 2 * u / 500)\<^sup>2 * ln 2 / 500 - 98/10)),
      v = u + ((i - i * ln 2 * u / 500)\<^sup>2 * ln 2 / 500 - 98/10),
      t = c + 1, I = i - i * ln 2 * u / 500, I_start = j\<rparr>"
  by (simp add: aug_step_def Fnet_aug_def logterm_weak Let_def) (simp add: weak_field_params_def)

lemma bare_trial_weak_one_pass:
  assumes "20 \<le> i\<^sup>2 * ln 2 / 500"
  shows "bare_trial weak_field_params \<lparr>barpos = x, v = u, t = c, I = i, I_start = j\<rparr> =
     Some \<lparr>barpos = i\<^sup>2 * ln 2 / 500, v = i\<^sup>2 * ln 2 / 500, t = c, I = i * 1.01, I_start = j\<rparr>"
proof -
  let ?p = "weak_field_params"
  let ?s = "fresh \<lparr>barpos = x, v = u, t = c, I = i, I_start = j\<rparr>"
  have st: "bare_step ?p ?s =
      \<lparr>barpos = i\<^sup>2 * ln 2 / 500, v = i\<^sup>2 * ln 2 / 500, t = c, I = i, I_start = j\<rparr>"
    by (simp add: fresh_def bare_step_weak)
  have "bare_inner ?p ?s = Some (bare_step ?p ?s)"
  proof (rule bare_inner_one_pass)
    show "barpos ?s < L ?p" by (simp add: fresh_def weak_field_params_def)
    show "\<not> barpos (bare_step ?p ?s) < L ?p"
      unfolding st using assms by (simp add: weak_field_params_def)
  qed
  then show ?thesis by (simp add: bare_trial_def st)
qed

lemma bare_search_weak:
  "bare_search weak_field_params (rest 134) =
     Some \<lparr>barpos = (13534/100)\<^sup>2 * ln 2 / 500, v = (13534/100)\<^sup>2 * ln 2 / 500, t = 0,
           I = 13534/100 * (101/100), I_start = 134\<rparr>"
proof -
  let ?p = "weak_field_params"
  have g0: "v (rest 134) \<le> v_goal ?p" by (simp add: rest_def weak_field_params_def)
  have t1: "bare_trial ?p (rest 134) =
      Some \<lparr>barpos = 134\<^sup>2 * ln 2 / 500, v = 134\<^sup>2 * ln 2 / 500, t = 0,
            I = 13534/100, I_start = 134\<rparr>"
    unfolding rest_def using bare_trial_weak_one_pass[of 134 0 0 0 134] ln2_lower by simp
  have g1: "v \<lparr>barpos = 134\<^sup>2 * ln 2 / 500, v = 134\<^sup>2 * ln 2 / 500, t = 0,
            I = 13534/100, I_start = 134\<rparr> \<le> v_goal ?p"
    using ln2_upper by (simp add: weak_field_params_def)
  have t2: "bare_trial ?p \<lparr>barpos = 134\<^sup>2 * ln 2 / 500, v = 134\<^sup>2 * ln 2 / 500, t = 0,
            I = 13534/100, I_start = 134\<rparr> =
      Some \<lparr>barpos = (13534/100)\<^sup>2 * ln 2 / 500, v = (13534/100)\<^sup>2 * ln 2 / 500, t = 0,
           I = 13534/100 * (101/100), I_start = 134\<rparr>"
    using bare_trial_weak_one_pass[of "13534/100" "134\<^sup>2 * ln 2 / 500" "134\<^sup>2 * ln 2 / 500" 0 134]
      ln2_lower by (simp add: power2_eq_square)
  have "bare_trials ?p (Suc (Suc 0)) (rest 134) =
      Some \<lparr>barpos = (13534/100)\<^sup>2 * ln 2 / 500, v = (13534/100)\<^sup>2 * ln 2 / 500, t = 0,
           I = 13534/100 * (101/100), I_start = 134\<rparr>"
    using g0 t1 g1 t2 by (simp del: One_nat_def)
  moreover have "\<not> v \<lparr>barpos = (13534/100)\<^sup>2 * ln 2 / 500, v = (13534/100)\<^sup>2 * ln 2 / 500, t = 0,
           I = 13534/100 * (101/100), I_start = 134\<rparr> \<le> v_goal ?p"
    using ln2_lower by (simp add: weak_field_params_def power2_eq_square)
  ultimately show ?thesis by (rule bare_search_trials)
qed

lemma aug_search_weak:
  "\<exists>sa. aug_search weak_field_params (rest 134) = Some sa \<and> I sa = 13534/100"
proof -
  let ?p = "weak_field_params"
  define v1 :: real where "v1 = 134\<^sup>2 * ln 2 / 500 - 98/10"
  define i2 :: real where "i2 = 134 - 134 * ln 2 * v1 / 500"
  define v2 :: real where "v2 = v1 + (i2\<^sup>2 * ln 2 / 500 - 98/10)"
  have v1: "14 < v1" "v1 < 16" using ln2_lower ln2_upper by (simp_all add: v1_def)
  have "ln 2 * v1 \<le> (7/10) * 16" using ln2_upper v1 by (intro mult_mono) simp_all
  moreover have "i2 = 134 - 134 * (ln 2 * v1) / 500" by (simp add: i2_def)
  ultimately have i2: "130 \<le> i2" by linarith
  have "130 * 130 \<le> i2 * i2" using i2 by (intro mult_mono) simp_all
  then have "130 * 130 * (69/100) \<le> i2\<^sup>2 * ln 2"
    using ln2_lower by (intro mult_mono) (simp_all add: power2_eq_square)
  then have v2: "27 < v2" using v1(1) by (simp add: v2_def)
  have s1: "aug_step ?p (fresh (rest 134)) =
      \<lparr>barpos = v1, v = v1, t = 1, I = 134, I_start = 134\<rparr>"
    by (simp add: fresh_def rest_def aug_step_weak v1_def)
  have s2: "aug_step ?p (aug_step ?p (fresh (rest 134))) =
      \<lparr>barpos = v1 + v2, v = v2, t = 2, I = i2, I_start = 134\<rparr>"
    unfolding s1 by (simp add: aug_step_weak v2_def i2_def)
  have "aug_inner ?p (fresh (rest 134)) = Some (aug_step ?p (aug_step ?p (fresh (rest 134))))"
  proof (rule aug_inner_two_pass)
    show "barpos (fresh (rest 134)) < L ?p" by (simp add: fresh_def weak_field_params_def)
    show "barpos (aug_step ?p (fresh (rest 134))) < L ?p"
      unfolding s1 using v1 by (simp add: weak_field_params_def)
    show "\<not> barpos (aug_step ?p (aug_step ?p (fresh (rest 134)))) < L ?p"
      unfolding s2 using v1 v2 by (simp add: weak_field_params_def)
  qed
  then have tr: "aug_trial ?p (rest 134) =
      Some \<lparr>barpos = v1 + v2, v = v2, t = 2, I = 13534/100, I_start = 13534/100\<rparr>"
    by (simp add: aug_trial_def s2 Let_def)
  have "v (rest 134) \<le> v_goal ?p" by (simp add: rest_def weak_field_params_def)
  with tr have "aug_trials ?p (Suc 0) (rest 134) =
      Some \<lparr>barpos = v1 + v2, v = v2, t = 2, I = 13534/100, I_start = 13534/100\<rparr>"
    by (simp add: aug_trials_one del: aug_trials.simps)
  moreover have "\<not> v \<lparr>barpos = v1 + v2, v = v2, t = 2, I = 13534/100, I_start = 13534/100\<rparr>
      \<le> v_goal ?p"
    using v2 by (simp add: weak_field_params_def)
  ultimately have "aug_search ?p (rest 134) =
      Some \<lparr>barpos = v1 + v2, v = v2, t = 2, I = 13534/100, I_start = 13534/100\<rparr>"
    by (rule aug_search_trials)
  then show ?thesis by simp
qed

text \<open>
  Without the hypothesis on the exit velocities the augmented search can print the
  smaller current. In the weak-field setting the bare run at 134 A leaves after one pass
  with velocity below the goal, while the augmented run at 134 A needs a second pass and
  leaves above it: the augmented search prints 134, the bare search 135.34.
\<close>

lemma aug_search_can_print_less:
  "\<exists>sa sb. aug_search weak_field_params (rest 134) = Some sa
      \<and> bare_search weak_field_params (rest 134) = Some sb
      \<and> snd (printed sa) < snd (printed sb)"
proof -
  obtain sa where sa: "aug_search weak_field_params (rest 134) = Some sa" "I sa = 13534/100"
    using aug_search_weak by blast
  have "snd (printed sa) < snd (printed \<lparr>barpos = (13534/100)\<^sup>2 * ln 2 / 500,
      v = (13534/100)\<^sup>2 * ln 2 / 500, t = 0, I = 13534/100 * (101/100), I_start = 134\<rparr>)"
    using sa(2) by (simp add: printed_def)
  with sa(1) bare_search_weak show ?thesis by blast
qed

section \<open>C1: the current update of the augmented pass\<close>

text \<open>
  C1, as stated, fails: the pass does not multiply the rate by \<open>dt\<close>. In the second
  pass of the notebook's own augmented run (start current 100000 A) the new current
  differs from \<open>I + dt * induced_current_rate(I, D, w, k, v)\<close>.
\<close>

theorem aug_current_update_counterexample:
  "I (aug_step notebook_params (aug_step notebook_params (rest 100000))) \<noteq>
     I (aug_step notebook_params (rest 100000))
       + dt notebook_params *
         spec_induced_current_rate (I (aug_step notebook_params (rest 100000)))
           (D notebook_params) (w notebook_params) (Muover2pi notebook_params)
           (v (aug_step notebook_params (rest 100000)))"
proof -
  define x where "x = spec_induced_current_rate (I (aug_step notebook_params (rest 100000)))
           (D notebook_params) (w notebook_params) (Muover2pi notebook_params)
           (v (aug_step notebook_params (rest 100000)))"
  have lt: "ln (D notebook_params + w notebook_params / 2) - ln (w notebook_params / 2) = 2 * ln 2"
    using logterm_notebook by (simp add: logterm_def)
  have "0 < 8000 * ln (2::real) - 98/10" using ln2_lower by simp
  then have "x < 0"
    unfolding x_def spec_induced_current_rate_def lt aug_step_notebook_rest
    using ln2_lower by (simp add: notebook_params_def field_simps)
  moreover have "I (aug_step notebook_params (aug_step notebook_params (rest 100000))) =
      I (aug_step notebook_params (rest 100000)) + x"
    by (simp add: aug_step_sel x_def spec_induced_current_rate_def logterm_def)
  moreover have "dt notebook_params * x = x / 100000" by (simp add: notebook_params_def)
  ultimately show ?thesis unfolding x_def[symmetric] by simp
qed

text \<open>
  C1, amended. Every pass of the augmented loop first replaces the current by
  \<open>I + induced_current_rate(I, D, w, k, v) = I - 2*k*I*(ln(D+w/2) - ln(w/2))*v\<close>, the rate
  itself and not the rate times \<open>dt\<close>, computed from the velocity and current the previous
  pass left; the force of the pass, and so the new velocity, is computed from the current
  already updated.
\<close>

theorem aug_current_update_first:
  assumes "valid_params p"
  shows "I (aug_step p s) =
     I s + spec_induced_current_rate (I s) (D p) (w p) (Muover2pi p) (v s)
   \<and> I (aug_step p s) =
     I s - 2 * Muover2pi p * I s * (ln (D p + w p / 2) - ln (w p / 2)) * v s
   \<and> v (aug_step p s) =
     v s + (2 * Muover2pi p * (I (aug_step p s))\<^sup>2 * (ln (D p + w p / 2) - ln (w p / 2))
            - 9.8 * m p) / m p * dt p"
  by (simp add: aug_step_sel Fnet_aug_def spec_induced_current_rate_def logterm_def)

theorem aug_current_update_first_witness:
  "valid_params (coarse_params 1 1)
   \<and> I (aug_step (coarse_params 1 1) \<lparr>barpos = 0, v = 1, t = 0, I = 1, I_start = 1\<rparr>)
       = 1 - 2 * ln 2
   \<and> v (aug_step (coarse_params 1 1) \<lparr>barpos = 0, v = 1, t = 0, I = 1, I_start = 1\<rparr>)
       = 1 + (2 * (1 - 2 * ln 2)\<^sup>2 * ln 2 - 9.8)"
proof -
  let ?p = "coarse_params 1 1"
  let ?s = "\<lparr>barpos = 0, v = 1, t = 0, I = 1, I_start = 1\<rparr>"
  have vp: "valid_params ?p" by (simp add: valid_coarse)
  have lt: "ln (D ?p + w ?p / 2) - ln (w ?p / 2) = ln 2"
    using logterm_coarse[of 1 1] by (simp add: logterm_def)
  note th = aug_current_update_first[OF vp, of ?s]
  from th have "I (aug_step ?p ?s) = I ?s - 2 * Muover2pi ?p * I ?s * ln 2 * v ?s"
    unfolding lt by blast
  then have i: "I (aug_step ?p ?s) = 1 - 2 * ln 2" by (simp add: coarse_params_def)
  from th have "v (aug_step ?p ?s) =
      v ?s + (2 * Muover2pi ?p * (1 - 2 * ln 2)\<^sup>2 * ln 2 - 9.8 * m ?p) / m ?p * dt ?p"
    unfolding lt i by blast
  then have "v (aug_step ?p ?s) = 1 + (2 * (1 - 2 * ln 2)\<^sup>2 * ln 2 - 9.8)"
    by (simp add: coarse_params_def)
  with vp i show ?thesis by blast
qed

section \<open>C2: the current the search prints\<close>

text \<open>
  C2, as stated, fails: the printed current is not one growth step below the current of
  the run that reached the goal. With rail length 1, goal 1.4 and start current 1 the
  first bare run ends at \<open>2 ln 2 < 1.4\<close>, the second, at current 1.01, ends above 1.4 and
  stops the search; the printed current is 1.01, the current of that second run, not the
  current 1 of the run before it.
\<close>

theorem printed_current_counterexample:
  "bare_trials (coarse_params 1 (7/5)) 1 (rest 1) =
     Some \<lparr>barpos = 2 * ln 2, v = 2 * ln 2, t = 0, I = 101/100, I_start = 1\<rparr>
   \<and> v \<lparr>barpos = 2 * ln 2, v = 2 * ln 2, t = 0, I = 101/100, I_start = 1\<rparr>
       \<le> v_goal (coarse_params 1 (7/5))
   \<and> bare_search (coarse_params 1 (7/5)) (rest 1) =
     Some \<lparr>barpos = 2 * (101/100)\<^sup>2 * ln 2, v = 2 * (101/100)\<^sup>2 * ln 2, t = 0,
           I = 101/100 * (101/100), I_start = 1\<rparr>
   \<and> snd (printed \<lparr>barpos = 2 * (101/100)\<^sup>2 * ln 2, v = 2 * (101/100)\<^sup>2 * ln 2, t = 0,
           I = 101/100 * (101/100), I_start = 1\<rparr>)
       = I (fresh \<lparr>barpos = 2 * ln 2, v = 2 * ln 2, t = 0, I = 101/100, I_start = 1\<rparr>)
   \<and> snd (printed \<lparr>barpos = 2 * (101/100)\<^sup>2 * ln 2, v = 2 * (101/100)\<^sup>2 * ln 2, t = 0,
           I = 101/100 * (101/100), I_start = 1\<rparr>)
       \<noteq> I (fresh (rest 1))"
proof -
  note bare_search_two_trials_coarse
  moreover have "v \<lparr>barpos = 2 * ln 2, v = 2 * ln 2, t = 0, I = 101/100, I_start = 1\<rparr>
       \<le> v_goal (coarse_params 1 (7/5))"
    using ln2_upper by (simp add: coarse_params_def)
  ultimately show ?thesis
    using bare_two_trials_coarse(1) by (simp add: printed_def fresh_def rest_def)
qed

text \<open>
  C2, amended. When a search that makes at least one pass stops, the current it prints,
  \<open>I/1.01\<close> with \<open>I\<close> already raised once more, equals the current the last inner run was
  started with, which is the start current times \<open>1.01^n\<close> after \<open>n\<close> failed passes; the
  printed velocity is the exit velocity of that same run, which is above \<open>v_goal\<close>. So
  the printed current is the one that reached the goal, not the one a growth step below.
\<close>

theorem printed_current_is_successful_trial:
  assumes "valid_params p"
  shows "(bare_search p s = Some sf \<and> v s \<le> v_goal p \<longrightarrow>
      (\<exists>n sn x. bare_trials p n s = Some sn \<and> v sn \<le> v_goal p
         \<and> bare_inner p (fresh sn) = Some x \<and> v_goal p < v x
         \<and> I (fresh sn) = I s * 1.01 ^ n
         \<and> printed sf = (v x, I (fresh sn))))
   \<and> (aug_search p s = Some sf \<and> v s \<le> v_goal p \<and> I s = I_start s \<longrightarrow>
      (\<exists>n sn x. aug_trials p n s = Some sn \<and> v sn \<le> v_goal p
         \<and> aug_inner p (fresh sn) = Some x \<and> v_goal p < v x
         \<and> I (fresh sn) = I_start s * 1.01 ^ n
         \<and> printed sf = (v x, I (fresh sn))))"
proof (intro conjI impI)
  assume a: "bare_search p s = Some sf \<and> v s \<le> v_goal p"
  then obtain k where k: "bare_trials p k s = Some sf" "\<not> v sf \<le> v_goal p"
    using bare_search_SomeD by blast
  with a obtain n where n: "k = n + 1" by (cases k) auto
  from k(1) obtain sn where sn: "bare_trials p n s = Some sn" "bare_trials p 1 sn = Some sf"
    unfolding n bare_trials_add by (auto simp: bind_eq_Some_conv)
  from sn(2) have g: "v sn \<le> v_goal p" and tr: "bare_trial p sn = Some sf"
    by (simp_all add: bare_trials_one del: bare_trials.simps split: if_splits)
  from bare_trial_SomeD[OF tr] obtain x where x: "bare_inner p (fresh sn) = Some x"
    "sf = x\<lparr>I := I x * 1.01\<rparr>" "I x = I sn" by blast
  have "printed sf = (v x, I (fresh sn))" using x(2,3) by (simp add: printed_def fresh_def)
  moreover have "v_goal p < v x" using k(2) x(2) by simp
  moreover have "I (fresh sn) = I s * 1.01 ^ n" using bare_trials_I[OF sn(1)] by (simp add: fresh_def)
  ultimately show "\<exists>n sn x. bare_trials p n s = Some sn \<and> v sn \<le> v_goal p
         \<and> bare_inner p (fresh sn) = Some x \<and> v_goal p < v x
         \<and> I (fresh sn) = I s * 1.01 ^ n
         \<and> printed sf = (v x, I (fresh sn))"
    using sn(1) g x(1) by blast
next
  assume a: "aug_search p s = Some sf \<and> v s \<le> v_goal p \<and> I s = I_start s"
  then obtain k where k: "aug_trials p k s = Some sf" "\<not> v sf \<le> v_goal p"
    using aug_search_SomeD by blast
  with a obtain n where n: "k = n + 1" by (cases k) auto
  from k(1) obtain sn where sn: "aug_trials p n s = Some sn" "aug_trials p 1 sn = Some sf"
    unfolding n aug_trials_add by (auto simp: bind_eq_Some_conv)
  from sn(2) have g: "v sn \<le> v_goal p" and tr: "aug_trial p sn = Some sf"
    by (simp_all add: aug_trials_one del: aug_trials.simps split: if_splits)
  from aug_trial_SomeD[OF tr] obtain x where x: "aug_inner p (fresh sn) = Some x"
    "sf = x\<lparr>I_start := I_start sn * 1.01, I := I_start sn * 1.01\<rparr>" by blast
  from a have "I s = I_start s" by simp
  from aug_trials_I[OF sn(1) this] have i: "I_start sn = I_start s * 1.01 ^ n" "I sn = I_start sn"
    by simp_all
  have "printed sf = (v x, I (fresh sn))" using x(2) i(2) by (simp add: printed_def fresh_def)
  moreover have "v_goal p < v x" using k(2) x(2) by simp
  moreover have "I (fresh sn) = I_start s * 1.01 ^ n" using i by (simp add: fresh_def)
  ultimately show "\<exists>n sn x. aug_trials p n s = Some sn \<and> v sn \<le> v_goal p
         \<and> aug_inner p (fresh sn) = Some x \<and> v_goal p < v x
         \<and> I (fresh sn) = I_start s * 1.01 ^ n
         \<and> printed sf = (v x, I (fresh sn))"
    using sn(1) g x(1) by blast
qed

theorem printed_current_is_successful_trial_witness:
  "valid_params (coarse_params 1 (7/5)) \<and> valid_params (coarse_params 1 1)
   \<and> bare_search (coarse_params 1 (7/5)) (rest 1) =
     Some \<lparr>barpos = 2 * (101/100)\<^sup>2 * ln 2, v = 2 * (101/100)\<^sup>2 * ln 2, t = 0,
           I = 101/100 * (101/100), I_start = 1\<rparr>
   \<and> v (rest 1) \<le> v_goal (coarse_params 1 (7/5))
   \<and> (\<exists>n sn x. bare_trials (coarse_params 1 (7/5)) n (rest 1) = Some sn
         \<and> bare_inner (coarse_params 1 (7/5)) (fresh sn) = Some x
         \<and> v_goal (coarse_params 1 (7/5)) < v x
         \<and> printed \<lparr>barpos = 2 * (101/100)\<^sup>2 * ln 2, v = 2 * (101/100)\<^sup>2 * ln 2, t = 0,
              I = 101/100 * (101/100), I_start = 1\<rparr> = (v x, I (rest 1) * 1.01 ^ n))
   \<and> aug_search (coarse_params 1 1) (rest 10) =
     Some \<lparr>barpos = 200 * ln 2 - 98/10, v = 200 * ln 2 - 98/10, t = 1,
           I = 1010/100, I_start = 1010/100\<rparr>
   \<and> v (rest 10) \<le> v_goal (coarse_params 1 1) \<and> I (rest 10) = I_start (rest 10)
   \<and> (\<exists>n sn x. aug_trials (coarse_params 1 1) n (rest 10) = Some sn
         \<and> aug_inner (coarse_params 1 1) (fresh sn) = Some x
         \<and> v_goal (coarse_params 1 1) < v x
         \<and> printed \<lparr>barpos = 200 * ln 2 - 98/10, v = 200 * ln 2 - 98/10, t = 1,
              I = 1010/100, I_start = 1010/100\<rparr> = (v x, I_start (rest 10) * 1.01 ^ n))"
proof -
  have h1: "v (rest 1) \<le> v_goal (coarse_params 1 (7/5))"
    by (simp add: rest_def coarse_params_def)
  have h2: "v (rest 10) \<le> v_goal (coarse_params 1 1)" "I (rest 10) = I_start (rest 10)"
    by (simp_all add: rest_def coarse_params_def)
  have vp: "valid_params (coarse_params 1 (7/5))" "valid_params (coarse_params 1 1)"
    by (simp_all add: valid_coarse)
  from printed_current_is_successful_trial[OF vp(1), where s = "rest 1"
      and sf = "\<lparr>barpos = 2 * (101/100)\<^sup>2 * ln 2, v = 2 * (101/100)\<^sup>2 * ln 2, t = 0,
           I = 101/100 * (101/100), I_start = 1\<rparr>"] bare_search_two_trials_coarse h1
  have b: "\<exists>n sn x. bare_trials (coarse_params 1 (7/5)) n (rest 1) = Some sn
         \<and> bare_inner (coarse_params 1 (7/5)) (fresh sn) = Some x
         \<and> v_goal (coarse_params 1 (7/5)) < v x
         \<and> printed \<lparr>barpos = 2 * (101/100)\<^sup>2 * ln 2, v = 2 * (101/100)\<^sup>2 * ln 2, t = 0,
              I = 101/100 * (101/100), I_start = 1\<rparr> = (v x, I (rest 1) * 1.01 ^ n)"
    by metis
  from printed_current_is_successful_trial[OF vp(2), where s = "rest 10"
      and sf = "\<lparr>barpos = 200 * ln 2 - 98/10, v = 200 * ln 2 - 98/10, t = 1,
           I = 1010/100, I_start = 1010/100\<rparr>"] aug_search_coarse_10 h2
  have a: "\<exists>n sn x. aug_trials (coarse_params 1 1) n (rest 10) = Some sn
         \<and> aug_inner (coarse_params 1 1) (fresh sn) = Some x
         \<and> v_goal (coarse_params 1 1) < v x
         \<and> printed \<lparr>barpos = 200 * ln 2 - 98/10, v = 200 * ln 2 - 98/10, t = 1,
              I = 1010/100, I_start = 1010/100\<rparr> = (v x, I_start (rest 10) * 1.01 ^ n)"
    by metis
  from a b h1 h2 vp bare_search_two_trials_coarse aug_search_coarse_10 show ?thesis by blast
qed

section \<open>C3: the state a trial starts from\<close>

text \<open>
  C3, as stated, fails for the elapsed time of the augmented variant: \<open>t\<close> is never
  reset. With rail length 1, goal 1000 and start current 10 the first augmented run
  leaves after one pass with \<open>t = 1\<close> and too little velocity, so the second run starts
  with \<open>t = 1\<close>.
\<close>

theorem aug_time_carried_over_counterexample:
  "aug_trials (coarse_params 1 1000) 1 (rest 10) =
     Some \<lparr>barpos = 200 * ln 2 - 98/10, v = 200 * ln 2 - 98/10, t = 1,
           I = 1010/100, I_start = 1010/100\<rparr>
   \<and> v \<lparr>barpos = 200 * ln 2 - 98/10, v = 200 * ln 2 - 98/10, t = 1,
         I = 1010/100, I_start = 1010/100\<rparr> \<le> v_goal (coarse_params 1 1000)
   \<and> t (fresh \<lparr>barpos = 200 * ln 2 - 98/10, v = 200 * ln 2 - 98/10, t = 1,
               I = 1010/100, I_start = 1010/100\<rparr>) \<noteq> 0"
proof -
  have "200 * ln 2 - 98/10 \<le> (1000::real)" using ln2_upper by simp
  with aug_first_trial_coarse show ?thesis by (simp add: fresh_def coarse_params_def)
qed

text \<open>
  C3, amended. In both variants the inner run of pass \<open>n+1\<close> of the outer loop starts
  from position 0 and velocity 0 with the current set to the start current times
  \<open>1.01^n\<close> (in the augmented variant provided \<open>I = I_start\<close> before the loop, as in the
  notebook); position, velocity and current of the failed run are not carried over. In
  the bare variant the time \<open>t\<close> is never written and keeps its initial value; the time
  of the augmented variant is left out. The search as a whole equals the search continued
  from the state after \<open>n\<close> passes, and its next step there is the inner loop run from
  that fresh state.
\<close>

theorem trial_starts_fresh:
  assumes "valid_params p"
  shows "(bare_trials p n s = Some s' \<longrightarrow>
      barpos (fresh s') = 0 \<and> v (fresh s') = 0 \<and> I (fresh s') = I s * 1.01 ^ n
    \<and> t (fresh s') = t s
    \<and> bare_search p s = bare_search p s'
    \<and> (v s' \<le> v_goal p \<longrightarrow>
         bare_search p s' =
           bare_inner p (fresh s') \<bind> (\<lambda>x. bare_search p (x\<lparr>I := I x * 1.01\<rparr>))))
   \<and> (aug_trials p n s = Some s' \<and> I s = I_start s \<longrightarrow>
      barpos (fresh s') = 0 \<and> v (fresh s') = 0 \<and> I (fresh s') = I_start s * 1.01 ^ n
    \<and> aug_search p s = aug_search p s'
    \<and> (v s' \<le> v_goal p \<longrightarrow>
         aug_search p s' =
           aug_inner p (fresh s') \<bind>
             (\<lambda>x. aug_search p (x\<lparr>I_start := I_start x * 1.01, I := I_start x * 1.01\<rparr>))))"
proof (intro conjI impI)
  assume a: "bare_trials p n s = Some s'"
  show "barpos (fresh s') = 0" "v (fresh s') = 0" by (simp_all add: fresh_def)
  show "I (fresh s') = I s * 1.01 ^ n" using bare_trials_I[OF a] by (simp add: fresh_def)
  show "t (fresh s') = t s" using bare_trials_t[OF a] by (simp add: fresh_def)
  show "bare_search p s = bare_search p s'" using a by (rule bare_search_through)
next
  assume "v s' \<le> v_goal p"
  then show "bare_search p s' =
      bare_inner p (fresh s') \<bind> (\<lambda>x. bare_search p (x\<lparr>I := I x * 1.01\<rparr>))"
    by (subst bare_search.simps) (simp add: bare_trial_def)
next
  assume a: "aug_trials p n s = Some s' \<and> I s = I_start s"
  show "barpos (fresh s') = 0" "v (fresh s') = 0" by (simp_all add: fresh_def)
  show "I (fresh s') = I_start s * 1.01 ^ n"
    using aug_trials_I[of p n s s'] a by (simp add: fresh_def)
  show "aug_search p s = aug_search p s'" using a by (blast intro: aug_search_through)
next
  assume "v s' \<le> v_goal p"
  then show "aug_search p s' =
      aug_inner p (fresh s') \<bind>
        (\<lambda>x. aug_search p (x\<lparr>I_start := I_start x * 1.01, I := I_start x * 1.01\<rparr>))"
    by (subst aug_search.simps) (simp add: aug_trial_def Let_def)
qed

theorem trial_starts_fresh_witness:
  "valid_params (coarse_params 1 1000)
   \<and> aug_trials (coarse_params 1 1000) 1 (rest 10) =
     Some \<lparr>barpos = 200 * ln 2 - 98/10, v = 200 * ln 2 - 98/10, t = 1,
           I = 1010/100, I_start = 1010/100\<rparr>
   \<and> I (rest 10) = I_start (rest 10)
   \<and> I (fresh \<lparr>barpos = 200 * ln 2 - 98/10, v = 200 * ln 2 - 98/10, t = 1,
               I = 1010/100, I_start = 1010/100\<rparr>) = I_start (rest 10) * 1.01 ^ 1
   \<and> bare_trials (coarse_params 1 1000) 0 (rest 10) = Some (rest 10)
   \<and> v (rest 10) \<le> v_goal (coarse_params 1 1000)
   \<and> I (fresh (rest 10)) = I (rest 10) * 1.01 ^ 0
   \<and> bare_search (coarse_params 1 1000) (rest 10) =
       bare_inner (coarse_params 1 1000) (fresh (rest 10)) \<bind>
         (\<lambda>x. bare_search (coarse_params 1 1000) (x\<lparr>I := I x * 1.01\<rparr>))"
proof -
  have h1: "aug_trials (coarse_params 1 1000) 1 (rest 10) =
     Some \<lparr>barpos = 200 * ln 2 - 98/10, v = 200 * ln 2 - 98/10, t = 1,
           I = 1010/100, I_start = 1010/100\<rparr>"
    by (rule aug_first_trial_coarse)
  have h2: "I (rest 10) = I_start (rest 10)" by (simp add: rest_def)
  have h3: "bare_trials (coarse_params 1 1000) 0 (rest 10) = Some (rest 10)" by simp
  have h4: "v (rest 10) \<le> v_goal (coarse_params 1 1000)"
    by (simp add: rest_def coarse_params_def)
  have vp: "valid_params (coarse_params 1 1000)" by (simp add: valid_coarse)
  from trial_starts_fresh[OF vp, where n = 1 and s = "rest 10"
      and s' = "\<lparr>barpos = 200 * ln 2 - 98/10, v = 200 * ln 2 - 98/10, t = 1,
           I = 1010/100, I_start = 1010/100\<rparr>"]
    trial_starts_fresh[OF vp, where n = 0 and s = "rest 10"
      and s' = "rest 10"] h1 h2 h3 h4 vp
  show ?thesis by blast
qed

section \<open>C4: the bare pass and the exit of its loop\<close>

text \<open>
  C4. The bare loop returns exactly the first state, counted in passes from the start,
  whose position is no longer below \<open>L\<close>, and the velocity it prints is that state's
  \<open>v\<close>. Each pass leaves \<open>I\<close> alone, adds \<open>Fnet/m*dt\<close> to \<open>v\<close> with
  \<open>Fnet = 2*k*I^2*(ln(D + w/2) - ln(w/2))\<close>, and then adds the new \<open>v\<close> times \<open>dt\<close> to the
  position.
\<close>

theorem bare_inner_explicit_euler:
  assumes "valid_params p"
  shows "(bare_inner p s = Some s' \<longleftrightarrow>
      (\<exists>n. s' = (bare_step p ^^ n) s \<and> L p \<le> barpos s'
           \<and> (\<forall>i<n. barpos ((bare_step p ^^ i) s) < L p)))
   \<and> I (bare_step p s) = I s
   \<and> v (bare_step p s) =
       v s + 2 * Muover2pi p * (I s)\<^sup>2 * (ln (D p + w p / 2) - ln (w p / 2)) / m p * dt p
   \<and> barpos (bare_step p s) = barpos s + v (bare_step p s) * dt p"
proof (intro conjI)
  show "bare_inner p s = Some s' \<longleftrightarrow>
      (\<exists>n. s' = (bare_step p ^^ n) s \<and> L p \<le> barpos s'
           \<and> (\<forall>i<n. barpos ((bare_step p ^^ i) s) < L p))"
    using bare_inner_SomeD[of p s s'] bare_inner_funpow[where p=p and s=s]
    by (auto simp: not_less)
qed (simp_all add: bare_step_sel bare_dv_def Fnet_bare_def logterm_def)

theorem bare_inner_explicit_euler_witness:
  "valid_params (coarse_params 1 1)
   \<and> bare_inner (coarse_params 1 1) (rest 1) =
     Some \<lparr>barpos = 2 * ln 2, v = 2 * ln 2, t = 0, I = 1, I_start = 1\<rparr>"
proof -
  have vp: "valid_params (coarse_params 1 1)" by (simp add: valid_coarse)
  have "(bare_step (coarse_params 1 1) ^^ 1) (rest 1) =
      \<lparr>barpos = 2 * ln 2, v = 2 * ln 2, t = 0, I = 1, I_start = 1\<rparr>"
    by (simp add: rest_def bare_step_coarse)
  moreover have "L (coarse_params 1 1) \<le> 2 * ln 2"
    using ln2_lower by (simp add: coarse_params_def)
  moreover have "\<forall>i<(1::nat). barpos ((bare_step (coarse_params 1 1) ^^ i) (rest 1))
      < L (coarse_params 1 1)"
    by (simp add: rest_def coarse_params_def)
  ultimately show ?thesis
    using vp bare_inner_explicit_euler[OF vp, of "rest 1"
        "\<lparr>barpos = 2 * ln 2, v = 2 * ln 2, t = 0, I = 1, I_start = 1\<rparr>"]
    by (metis state.select_convs(1))
qed

section \<open>C5: which runs return\<close>



section \<open>C6: runs without current\<close>

text \<open>
  C6, as stated, fails: the loops have no cap. The bare run of the notebook's setting
  with current zero never returns, so nothing is detected or reported.
\<close>

theorem zero_current_hangs_counterexample:
  "bare_inner notebook_params (rest 0) = None"
  by (rule no_current_no_return(1))
     (simp_all add: valid_notebook, simp_all add: rest_def notebook_params_def)

text \<open>
  C6, amended. A run started with current zero, with the bar on the rail and not moving
  forward, is not detected: in both variants the loop has no iteration or time cap and
  never returns.
\<close>

theorem zero_current_never_returns:
  assumes "valid_params p" and "I s = 0" and "v s \<le> 0" and "barpos s < L p"
  shows "bare_inner p s = None \<and> aug_inner p s = None"
  using no_current_no_return[OF assms] by simp

theorem zero_current_never_returns_witness:
  "valid_params notebook_params \<and> I (rest 0) = 0 \<and> v (rest 0) \<le> 0
   \<and> barpos (rest 0) < L notebook_params
   \<and> bare_inner notebook_params (fresh (rest 0)) = None
   \<and> aug_inner notebook_params (fresh (rest 0)) = None"
proof -
  have h1: "valid_params notebook_params" by (rule valid_notebook)
  have h2: "I (rest 0) = 0" "v (rest 0) \<le> 0" "barpos (rest 0) < L notebook_params"
    by (simp_all add: rest_def notebook_params_def)
  have f: "fresh (rest 0) = rest 0" by (simp add: fresh_def rest_def)
  from zero_current_never_returns[OF h1 h2] h1 h2 show ?thesis by (simp add: f)
qed

section \<open>C7: exit velocity against current\<close>




section \<open>C8: the two searches compared\<close>




section \<open>C9: the current from pass to pass\<close>

text \<open>
  C9, as stated, fails: in the augmented run of the notebook's setting started with
  100 A the force of the first pass is negative, the bar moves backwards, the loop goes
  on, and the second pass raises the current.
\<close>

theorem aug_current_rises_counterexample:
  "barpos (rest 100) < L notebook_params
   \<and> barpos ((aug_step notebook_params ^^ 1) (rest 100)) < L notebook_params
   \<and> I ((aug_step notebook_params ^^ 1) (rest 100)) < I ((aug_step notebook_params ^^ 2) (rest 100))"
proof -
  have neg: "4 * 100\<^sup>2 * ln (2::real) / 5000000 - 98/10 < 0" using ln2_upper by simp
  have b: "barpos (aug_step notebook_params (rest 100)) < L notebook_params"
    unfolding aug_step_notebook_rest using neg by (simp add: notebook_params_def)
  have "I (aug_step notebook_params (aug_step notebook_params (rest 100))) =
      100 - 2 * Muover2pi notebook_params * 100 * (2 * ln 2)
              * ((4 * 100\<^sup>2 * ln 2 / 5000000 - 98/10) / 100000)"
    by (simp only: aug_step_sel(1) logterm_notebook aug_step_notebook_rest state.select_convs)
  also have "\<dots> = 100 - 2 * (2/10000000) * 100 * (2 * ln 2)
              * ((4 * 100\<^sup>2 * ln 2 / 5000000 - 98/10) / 100000)"
    by (simp add: notebook_params_def)
  finally have "I (aug_step notebook_params (aug_step notebook_params (rest 100))) =
      100 - 2 * (2/10000000) * 100 * (2 * ln 2)
              * ((4 * 100\<^sup>2 * ln 2 / 5000000 - 98/10) / 100000)" .
  moreover have "0 < - (2 * (2/10000000) * 100 * (2 * ln 2)
      * ((4 * 100\<^sup>2 * ln (2::real) / 5000000 - 98/10) / 100000))"
    using neg ln2_lower by (simp add: field_simps)
  ultimately have "I (aug_step notebook_params (rest 100))
      < I (aug_step notebook_params (aug_step notebook_params (rest 100)))"
    unfolding aug_step_notebook_rest by simp
  with b show ?thesis by (simp add: rest_def notebook_params_def numeral_2_eq_2)
qed

text \<open>
  C9, amended. A pass of the bare loop never changes the current, so the state a bare
  run returns has the current it started with. A pass of the augmented loop (valid
  parameters) lowers or keeps the current exactly when current and velocity do not have
  opposite signs, in particular whenever both are non-negative.
\<close>

theorem current_step_monotone:
  assumes vp: "valid_params p"
  shows "I ((bare_step p ^^ n) s) = I s
   \<and> (bare_inner p s = Some s' \<longrightarrow> I s' = I s)
   \<and> (I (aug_step p s) \<le> I s \<longleftrightarrow> 0 \<le> I s * v s)"
proof (intro conjI impI)
  show "I ((bare_step p ^^ n) s) = I s" by (rule bare_funpow_I)
next
  assume "bare_inner p s = Some s'"
  from bare_inner_SomeD[OF this] show "I s' = I s" by (auto simp: bare_funpow_I)
next
  have k: "0 < 2 * Muover2pi p * logterm p"
    using logterm_pos[OF vp] vp by (simp add: valid_params_def)
  define c where "c = 2 * Muover2pi p * logterm p"
  have "I (aug_step p s) = I s - c * (I s * v s)"
    by (simp add: aug_step_sel c_def)
  moreover have "0 < c" using k by (simp add: c_def)
  ultimately show "I (aug_step p s) \<le> I s \<longleftrightarrow> 0 \<le> I s * v s"
    by (simp add: zero_le_mult_iff)
qed

theorem current_step_monotone_witness:
  "valid_params (coarse_params 1 1)
   \<and> bare_inner (coarse_params 1 1) (rest 1) =
        Some \<lparr>barpos = 2 * ln 2, v = 2 * ln 2, t = 0, I = 1, I_start = 1\<rparr>
   \<and> I \<lparr>barpos = 2 * ln 2, v = 2 * ln 2, t = 0, I = 1, I_start = 1\<rparr> = I (rest 1)
   \<and> 0 \<le> I (rest 1) * v (rest 1)
   \<and> I (aug_step (coarse_params 1 1) (rest 1)) \<le> I (rest 1)"
proof -
  have h1: "valid_params (coarse_params 1 1)" by (simp add: valid_coarse)
  have h2: "bare_inner (coarse_params 1 1) (rest 1) =
        Some \<lparr>barpos = 2 * ln 2, v = 2 * ln 2, t = 0, I = 1, I_start = 1\<rparr>"
    using ln2_lower
    by (subst bare_inner.simps, subst bare_inner.simps)
       (simp add: rest_def bare_step_coarse, simp add: coarse_params_def)
  have h3: "0 \<le> I (rest 1) * v (rest 1)" by (simp add: rest_def)
  from current_step_monotone[OF h1, where n = 0 and s = "rest 1"
      and s' = "\<lparr>barpos = 2 * ln 2, v = 2 * ln 2, t = 0, I = 1, I_start = 1\<rparr>"] h1 h2 h3
  show ?thesis by blast
qed

section \<open>C10: the velocities of the bare loop\<close>



end
